theory Spec2Isabelle
  imports Main "HOL-Library.Sublist" "HOL-Library.Multiset" "HOL-Library.Product_Lexorder"
begin

section \<open>Python strings\<close>

text \<open>
  A Python \<^verbatim>\<open>str\<close> is modelled as a \<^typ>\<open>string\<close>: each \<^typ>\<open>char\<close> stands for one code
  point below 256. The character classes below are those of Python 3 on that range:
  the regular-expression classes \<^verbatim>\<open>[a-zA-Z]\<close> and \<^verbatim>\<open>\w\<close> on \<^verbatim>\<open>str\<close> patterns,
  \<^verbatim>\<open>str.isupper\<close>, \<^verbatim>\<open>str.lower\<close>, and the white space at which \<^verbatim>\<open>str.split()\<close>
  splits.
\<close>

definition ascii_upper :: "char \<Rightarrow> bool" where
  "ascii_upper c \<longleftrightarrow> 65 \<le> (of_char c :: nat) \<and> (of_char c :: nat) \<le> 90"

definition ascii_lower :: "char \<Rightarrow> bool" where
  "ascii_lower c \<longleftrightarrow> 97 \<le> (of_char c :: nat) \<and> (of_char c :: nat) \<le> 122"

text \<open>The class \<^verbatim>\<open>[a-zA-Z]\<close>.\<close>

definition re_alpha :: "char \<Rightarrow> bool" where
  "re_alpha c \<longleftrightarrow> ascii_lower c \<or> ascii_upper c"

text \<open>
  The class \<^verbatim>\<open>\w\<close>: letters, digits and the underscore, and beyond ASCII the
  alphanumeric code points of Latin-1 (feminine and masculine ordinal, superscript digits,
  micro sign, vulgar fractions, and the accented letters, which exclude the
  multiplication sign 215 and the division sign 247).
\<close>

definition re_word :: "char \<Rightarrow> bool" where
  "re_word c \<longleftrightarrow>
     (let n = (of_char c :: nat) in
        re_alpha c \<or> (48 \<le> n \<and> n \<le> 57) \<or> n = 95
        \<or> n = 170 \<or> n = 178 \<or> n = 179 \<or> n = 181 \<or> n = 185 \<or> n = 186
        \<or> (188 \<le> n \<and> n \<le> 190)
        \<or> (192 \<le> n \<and> n \<noteq> 215 \<and> n \<noteq> 247))"

definition py_isupper :: "char \<Rightarrow> bool" where
  "py_isupper c \<longleftrightarrow>
     (let n = (of_char c :: nat) in
        (65 \<le> n \<and> n \<le> 90) \<or> (192 \<le> n \<and> n \<le> 222 \<and> n \<noteq> 215))"

definition py_lower_char :: "char \<Rightarrow> char" where
  "py_lower_char c = (if py_isupper c then char_of ((of_char c :: nat) + 32) else c)"

definition py_lower :: "string \<Rightarrow> string" where
  "py_lower s = map py_lower_char s"

definition py_isspace :: "char \<Rightarrow> bool" where
  "py_isspace c \<longleftrightarrow>
     (let n = (of_char c :: nat) in
        (9 \<le> n \<and> n \<le> 13) \<or> (28 \<le> n \<and> n \<le> 32) \<or> n = 133 \<or> n = 160)"

text \<open>
  \<^verbatim>\<open>s.split()\<close>: the maximal runs of characters that are not white space. \<open>cur\<close> is
  the run being read.
\<close>

fun split_acc :: "string \<Rightarrow> string \<Rightarrow> string list" where
  "split_acc cur [] = (if cur = [] then [] else [cur])"
| "split_acc cur (c # cs) =
     (if py_isspace c then (if cur = [] then split_acc [] cs else cur # split_acc [] cs)
      else split_acc (cur @ [c]) cs)"

definition py_split :: "string \<Rightarrow> string list" where
  "py_split s = split_acc [] s"

text \<open>\<^verbatim>\<open>sub in s\<close> on strings: \<open>sub\<close> occurs in \<open>s\<close> as a contiguous substring.\<close>

fun py_in :: "string \<Rightarrow> string \<Rightarrow> bool" where
  "py_in sub [] \<longleftrightarrow> sub = []"
| "py_in sub (c # cs) \<longleftrightarrow> prefix sub (c # cs) \<or> py_in sub cs"

section \<open>The regular expression of \<^verbatim>\<open>clean_text\<close>\<close>

text \<open>
  \<^verbatim>\<open>re.findall(r'\b[a-zA-Z]{3,}\b', s)\<close> scans \<open>s\<close> from left to right. The scanner's state
  is the character before the current position (\<open>None\<close> at the start of the string) and
  the rest of the string. At each position it tries to match: \<^verbatim>\<open>\b\<close> holds where exactly
  one of the two neighbouring characters is a word character; \<^verbatim>\<open>[a-zA-Z]{3,}\<close> is greedy, so
  it first takes the whole run of letters and then gives letters back one at a time, down
  to three, until the closing \<^verbatim>\<open>\b\<close> holds. After a match the scan goes on behind it,
  otherwise at the next character.
\<close>

fun peek :: "string \<Rightarrow> char option" where
  "peek [] = None"
| "peek (c # cs) = Some c"

fun is_word_opt :: "char option \<Rightarrow> bool" where
  "is_word_opt None = False"
| "is_word_opt (Some c) = re_word c"

definition word_boundary :: "char option \<Rightarrow> char option \<Rightarrow> bool" where
  "word_boundary prev nxt \<longleftrightarrow> is_word_opt prev \<noteq> is_word_opt nxt"

fun try_len :: "string \<Rightarrow> nat \<Rightarrow> nat option" where
  "try_len rest l =
     (if l < 3 then None
      else if word_boundary (Some (last (take l rest))) (peek (drop l rest)) then Some l
      else try_len rest (l - 1))"

declare try_len.simps [simp del]

definition match_here :: "char option \<Rightarrow> string \<Rightarrow> nat option" where
  "match_here prev rest =
     (if word_boundary prev (peek rest)
      then try_len rest (length (takeWhile re_alpha rest))
      else None)"

lemma try_len_bounds: "try_len rest l = Some k \<Longrightarrow> 3 \<le> k \<and> k \<le> l"
proof (induction rest l rule: try_len.induct)
  case (1 rest l)
  then show ?case
    by (subst (asm) try_len.simps) (auto split: if_splits)
qed

lemma match_here_bounds:
  assumes "match_here prev rest = Some k"
  shows "3 \<le> k \<and> k \<le> length rest"
proof -
  from assms have "try_len rest (length (takeWhile re_alpha rest)) = Some k"
    by (simp add: match_here_def split: if_splits)
  then have "3 \<le> k \<and> k \<le> length (takeWhile re_alpha rest)"
    by (rule try_len_bounds)
  moreover have "length (takeWhile re_alpha rest) \<le> length rest"
    by (rule length_takeWhile_le)
  ultimately show ?thesis by linarith
qed

function findall_words :: "char option \<Rightarrow> string \<Rightarrow> string list" where
  "findall_words prev [] = []"
| "findall_words prev (c # cs) =
     (case match_here prev (c # cs) of
        Some l \<Rightarrow> take l (c # cs) # findall_words (Some (last (take l (c # cs)))) (drop l (c # cs))
      | None \<Rightarrow> findall_words (Some c) cs)"
  by pat_completeness auto
termination
proof (relation "measure (\<lambda>(prev, rest). length rest)")
  fix prev :: "char option" and c :: char and cs :: string and l :: nat
  assume "match_here prev (c # cs) = Some l"
  then have "3 \<le> l" by (auto dest: match_here_bounds)
  then show "((Some (last (take l (c # cs))), drop l (c # cs)), prev, c # cs)
     \<in> measure (\<lambda>(prev, rest). length rest)"
    by simp
qed simp_all

text \<open>
  \<^verbatim>\<open>def clean_text(text): return re.findall(r'\b[a-zA-Z]{3,}\b', text.lower())\<close>
\<close>

definition clean_text :: "string \<Rightarrow> string list" where
  "clean_text text = findall_words None (py_lower text)"

text \<open>
  The words of a text, for comparison with \<open>clean_text\<close>: a word is a maximal run of
  word characters (letters, digits, underscore), as \<^verbatim>\<open>\b\<close> delimits it. A word is kept
  whole as a token when it has at least three characters, all of them in \<^verbatim>\<open>[a-zA-Z]\<close>.
\<close>

function word_runs :: "string \<Rightarrow> string list" where
  "word_runs [] = []"
| "word_runs (c # cs) =
     (if re_word c then takeWhile re_word (c # cs) # word_runs (dropWhile re_word cs)
      else word_runs cs)"
  by pat_completeness auto
termination
  by (relation "measure length") (auto simp: length_dropWhile_le less_Suc_eq_le)

definition whole_token :: "string \<Rightarrow> bool" where
  "whole_token w \<longleftrightarrow> 3 \<le> length w \<and> list_all re_alpha w"

section \<open>Stop words and keywords\<close>

text \<open>
  \<^verbatim>\<open>STOPWORDS = set(stopwords.words('english')).union(EXTRA_STOPWORDS)\<close>. The English
  stop-word list is data of the NLTK corpus, not of this repository: it is the parameter
  \<open>nltk_english\<close>. \<open>EXTRA_STOPWORDS\<close> is the list of \<^verbatim>\<open>seo.py\<close>.
\<close>

definition EXTRA_STOPWORDS :: "string set" where
  "EXTRA_STOPWORDS = set
    [''with'', ''from'', ''that'', ''this'', ''have'', ''will'', ''your'', ''their'', ''about'',
     ''into'', ''more'', ''been'', ''also'', ''over'', ''some'', ''what'', ''when'', ''where'',
     ''which'', ''using'', ''than'', ''then'', ''each'', ''into'', ''only'', ''very'', ''just'',
     ''them'', ''they'', ''such'', ''while'', ''there'', ''here'', ''http'', ''https'', ''www'',
     ''com'', ''blog'', ''like'', ''get'', ''make'', ''use'', ''new'', ''year'', ''need'',
     ''know'', ''see'', ''top'', ''best'', ''guide'', ''how'', ''why'']"

definition STOPWORDS :: "string list \<Rightarrow> string set" where
  "STOPWORDS nltk_english = set nltk_english \<union> EXTRA_STOPWORDS"

section \<open>Fetching and scoring articles\<close>

text \<open>
  A feed entry as \<^verbatim>\<open>feedparser\<close> delivers it. \<open>e_published_parsed\<close> is \<open>None\<close> when
  \<^verbatim>\<open>datetime(*entry.published_parsed[:6])\<close> raises (the field is absent or malformed) and
  the parsed time otherwise; \<open>e_summary\<close> is \<open>None\<close> when the entry has no summary. A
  \<^verbatim>\<open>datetime\<close> is a point on a linear time scale.
\<close>

type_synonym datetime = int

record entry =
  e_title :: string
  e_link :: string
  e_published_parsed :: "datetime option"
  e_summary :: "string option"

text \<open>The dictionary that \<^verbatim>\<open>fetch_and_score_articles\<close> builds for each entry.\<close>

record article =
  title :: string
  link :: string
  published :: datetime
  summary :: string
  "keywords" :: "string list"
  score :: nat

text \<open>\<^verbatim>\<open>entry.get("summary", fallback)\<close>\<close>

definition get_summary :: "entry \<Rightarrow> string \<Rightarrow> string" where
  "get_summary e fallback = (case e_summary e of None \<Rightarrow> fallback | Some s \<Rightarrow> s)"

text \<open>
  The body of the loop over the entries (\<^verbatim>\<open>seo.py\<close>, lines 90 to 109). \<open>now\<close> is what
  \<^verbatim>\<open>datetime.now()\<close> returns while this entry is processed.
\<close>

definition make_article :: "string list \<Rightarrow> string set \<Rightarrow> datetime \<Rightarrow> entry \<Rightarrow> article" where
  "make_article nltk_english company_keywords now e =
     (let published_dt = (case e_published_parsed e of Some d \<Rightarrow> d | None \<Rightarrow> now);
          text = e_title e @ '' '' @ get_summary e [];
          words = clean_text text;
          kws = filter (\<lambda>w. w \<notin> STOPWORDS nltk_english) words;
          sc = card (set kws \<inter> company_keywords)
      in \<lparr>title = e_title e, link = e_link e, published = published_dt,
          summary = get_summary e ''No summary available.'', keywords = kws, score = sc\<rparr>)"

text \<open>
  The score of \<^verbatim>\<open>test.py\<close>:
  \<^verbatim>\<open>len(set(keywords).intersection(company_keywords)) if company_keywords else 0\<close>
\<close>

definition overlap_score :: "string list \<Rightarrow> string set \<Rightarrow> nat" where
  "overlap_score kws company_keywords =
     (if company_keywords \<noteq> {} then card (set kws \<inter> company_keywords) else 0)"

text \<open>
  The loops over the feeds and their entries. \<open>clock k\<close> is the reading of the clock while
  the entry number \<open>k\<close> (in fetch order, from 0) is processed.
\<close>

fun process_entries ::
  "(nat \<Rightarrow> datetime) \<Rightarrow> string list \<Rightarrow> string set \<Rightarrow> nat \<Rightarrow> entry list \<Rightarrow> article list" where
  "process_entries clock nltk_english company_keywords k [] = []"
| "process_entries clock nltk_english company_keywords k (e # es) =
     make_article nltk_english company_keywords (clock k) e
       # process_entries clock nltk_english company_keywords (Suc k) es"

text \<open>
  \<^verbatim>\<open>sorted(xs, key=key, reverse=True)\<close>. Python's sort is stable, also with
  \<^verbatim>\<open>reverse=True\<close>: the list is reversed, sorted stably in ascending order, and reversed
  again.
\<close>

definition py_sorted_reverse :: "('a \<Rightarrow> 'k::linorder) \<Rightarrow> 'a list \<Rightarrow> 'a list" where
  "py_sorted_reverse key xs = rev (sort_key key (rev xs))"

text \<open>\<^verbatim>\<open>sorted(articles, key=lambda x: (x["score"], x["published"]), reverse=True)\<close>\<close>

definition rank_articles :: "article list \<Rightarrow> article list" where
  "rank_articles articles = py_sorted_reverse (\<lambda>x. (score x, published x)) articles"

definition fetch_and_score_articles ::
  "(nat \<Rightarrow> datetime) \<Rightarrow> string list \<Rightarrow> entry list list \<Rightarrow> string set \<Rightarrow> article list" where
  "fetch_and_score_articles clock nltk_english feeds company_keywords =
     rank_articles (process_entries clock nltk_english company_keywords 0 (concat feeds))"

text \<open>A clock that stands still, for examples.\<close>

definition fixed_clock :: "datetime \<Rightarrow> nat \<Rightarrow> datetime" where
  "fixed_clock t k = t"

text \<open>An article with a name (its title and link), a score and a published time, for examples.\<close>

definition example_article :: "string \<Rightarrow> nat \<Rightarrow> datetime \<Rightarrow> article" where
  "example_article name s p =
     \<lparr>title = name, link = name, published = p, summary = [], keywords = [], score = s\<rparr>"

text \<open>
  Two feeds of one entry each, for examples: the first entry has a publish time and no
  summary, the second a summary and no publish time that parses.
\<close>

definition example_feeds :: "entry list list" where
  "example_feeds =
     [[\<lparr>e_title = ''Content strategy 2024'', e_link = ''a'',
          e_published_parsed = Some 100, e_summary = None\<rparr>],
      [\<lparr>e_title = ''Marketing content tips'', e_link = ''b'',
          e_published_parsed = None, e_summary = Some ''The best SEO of the year''\<rparr>]]"

section \<open>Counting\<close>

text \<open>
  \<^verbatim>\<open>collections.Counter\<close>: a dictionary from elements to counts that keeps the order in
  which the elements were first seen. It is an association list in that order.
  \<open>counter_get\<close> is \<^verbatim>\<open>counter[x]\<close>, which is 0 for a missing element.
\<close>

fun counter_add :: "'a \<Rightarrow> ('a \<times> nat) list \<Rightarrow> ('a \<times> nat) list" where
  "counter_add x [] = [(x, 1)]"
| "counter_add x ((y, n) # rest) =
     (if x = y then (y, Suc n) # rest else (y, n) # counter_add x rest)"

definition Counter :: "'a list \<Rightarrow> ('a \<times> nat) list" where
  "Counter xs = fold counter_add xs []"

definition counter_get :: "('a \<times> nat) list \<Rightarrow> 'a \<Rightarrow> nat" where
  "counter_get counter x = (case map_of counter x of Some n \<Rightarrow> n | None \<Rightarrow> 0)"

text \<open>
  \<^verbatim>\<open>Counter.most_common(n)\<close>: the \<open>n\<close> most common elements with their counts, from the most
  common to the least; elements with equal counts stay in the order first seen.
\<close>

definition most_common :: "nat \<Rightarrow> ('a \<times> nat) list \<Rightarrow> ('a \<times> nat) list" where
  "most_common n counter = take n (py_sorted_reverse snd counter)"

section \<open>Topic ideas\<close>

definition NUM_ARTICLES_TO_SCAN :: nat where
  "NUM_ARTICLES_TO_SCAN = 50"

definition NUM_SUGGESTIONS :: nat where
  "NUM_SUGGESTIONS = 15"

definition question_starters :: "string list" where
  "question_starters =
     [''How to'', ''Why'', ''What is'', ''The Ultimate Guide to'', ''A Beginner's Guide to'']"

definition list_starters :: "string list" where
  "list_starters = [''Ways to'', ''Steps to'', ''Effective Strategies for'', ''Examples of'']"

text \<open>
  \<^verbatim>\<open>any(starter.lower() in clean_title.lower() for starter in question_starters + list_starters)\<close>
\<close>

definition has_starter :: "string \<Rightarrow> bool" where
  "has_starter clean_title \<longleftrightarrow>
     list_ex (\<lambda>starter. py_in (py_lower starter) (py_lower clean_title))
       (question_starters @ list_starters)"

subsection \<open>\<^verbatim>\<open>suggest_seo_topics\<close> of \<^verbatim>\<open>seonew.py\<close>\<close>

text \<open>An idea is a pair of the idea's text and the link of its source article.\<close>

type_synonym idea = "string \<times> string"

text \<open>Idea 1 (lines 127 to 133): what the title of an article appends to \<open>ideas\<close>.\<close>

definition title_ideas :: "article \<Rightarrow> idea list \<Rightarrow> idea list" where
  "title_ideas a ideas =
     (let source_link = link a; clean_title = title a in
        if has_starter clean_title then ideas @ [(clean_title, source_link)]
        else (ideas @ [(''How to '' @ clean_title, source_link)])
               @ [(''The Ultimate Guide to '' @ clean_title, source_link)])"

text \<open>
  \<^verbatim>\<open>q = sent[0].lower() + sent[1:] if sent and sent[0].isupper() else sent\<close>
\<close>

definition lower_first :: "string \<Rightarrow> string" where
  "lower_first sent =
     (case sent of
        [] \<Rightarrow> sent
      | c # cs \<Rightarrow> if py_isupper c then py_lower_char c # cs else sent)"

definition why_question :: "string \<Rightarrow> string" where
  "why_question q = ''Why is '' @ q @ '' important for your business?''"

text \<open>The loop over the sentences (lines 138 to 143).\<close>

fun sentence_ideas :: "string \<Rightarrow> string list \<Rightarrow> idea list \<Rightarrow> idea list" where
  "sentence_ideas source_link [] ideas = ideas"
| "sentence_ideas source_link (sent # sents) ideas =
     sentence_ideas source_link sents
       (if 8 < length (py_split sent) \<and> length (py_split sent) < 20
        then ideas @ [(why_question (lower_first sent), source_link)]
        else ideas)"

text \<open>
  Idea 2 (lines 136 to 146). \<^verbatim>\<open>sent_tokenize\<close> is NLTK's sentence tokenizer, a parameter
  here: it returns the sentences of a text, or \<open>None\<close> when it raises; the exception is
  caught and the article then has no idea from its summary.
\<close>

definition summary_ideas ::
  "(string \<Rightarrow> string list option) \<Rightarrow> article \<Rightarrow> idea list \<Rightarrow> idea list" where
  "summary_ideas sent_tokenize a ideas =
     (case sent_tokenize (summary a) of
        None \<Rightarrow> ideas
      | Some sentences \<Rightarrow> sentence_ideas (link a) (take 2 sentences) ideas)"

text \<open>The loop over the articles (lines 123 to 146).\<close>

fun generate_ideas ::
  "(string \<Rightarrow> string list option) \<Rightarrow> article list \<Rightarrow> idea list \<Rightarrow> idea list" where
  "generate_ideas sent_tokenize [] ideas = ideas"
| "generate_ideas sent_tokenize (a # as) ideas =
     generate_ideas sent_tokenize as (summary_ideas sent_tokenize a (title_ideas a ideas))"

text \<open>
  The loop that builds \<^verbatim>\<open>unique_ordered\<close> (lines 151 to 156): the first occurrence of each
  idea text with its link and the count of the text.
\<close>

fun unique_loop ::
  "(string \<times> nat) list \<Rightarrow> idea list \<Rightarrow> string set \<Rightarrow> (string \<times> string \<times> nat) list
     \<Rightarrow> (string \<times> string \<times> nat) list" where
  "unique_loop counter [] seen unique_ordered = unique_ordered"
| "unique_loop counter ((idea, lnk) # rest) seen unique_ordered =
     (if idea \<notin> seen
      then unique_loop counter rest (insert idea seen)
             (unique_ordered @ [(idea, lnk, counter_get counter idea)])
      else unique_loop counter rest seen unique_ordered)"

definition unique_ordered :: "idea list \<Rightarrow> (string \<times> string \<times> nat) list" where
  "unique_ordered ideas = unique_loop (Counter (map fst ideas)) ideas {} []"

text \<open>\<^verbatim>\<open>unique_ordered.sort(key=lambda x: x[2], reverse=True)\<close>\<close>

definition sort_by_count :: "(string \<times> string \<times> nat) list \<Rightarrow> (string \<times> string \<times> nat) list" where
  "sort_by_count u = py_sorted_reverse (\<lambda>x. snd (snd x)) u"

text \<open>
  Lines 148 to 162: from the ideas in generation order to the suggestions returned,
  \<^verbatim>\<open>[(idea, link) for idea, link, _count in unique_ordered[:NUM_SUGGESTIONS]]\<close>.
\<close>

definition rank_ideas :: "idea list \<Rightarrow> idea list" where
  "rank_ideas ideas =
     map (\<lambda>x. (fst x, fst (snd x))) (take NUM_SUGGESTIONS (sort_by_count (unique_ordered ideas)))"

definition suggest_seo_topics ::
  "(string \<Rightarrow> string list option) \<Rightarrow> article list \<Rightarrow> idea list" where
  "suggest_seo_topics sent_tokenize articles =
     rank_ideas (generate_ideas sent_tokenize (take NUM_ARTICLES_TO_SCAN articles) [])"

text \<open>A tokenizer that returns the given sentences, for examples.\<close>

definition sentences_are :: "string list \<Rightarrow> string \<Rightarrow> string list option" where
  "sentences_are sents text = Some sents"

subsection \<open>The variants of \<^verbatim>\<open>seo.py\<close> and \<^verbatim>\<open>test.py\<close>\<close>

text \<open>
  In \<^verbatim>\<open>seo.py\<close> an idea is its text alone. Idea 1 (lines 121 to 123) appends the title
  when it has a starter and nothing otherwise; idea 2 (lines 128 to 130) lower-cases the
  first character of the sentence without a test,
  \<^verbatim>\<open>f"Why is {sent[0].lower() + sent[1:]} Important for Your Business?"\<close>,
  where the sentence has more than 8 words and so is not empty; the ideas returned are
  \<^verbatim>\<open>[p for p, _ in Counter(ideas).most_common(NUM_SUGGESTIONS)]\<close>.
\<close>

definition seo_title_ideas :: "article \<Rightarrow> string list \<Rightarrow> string list" where
  "seo_title_ideas a ideas =
     (let clean_title = title a in
        if has_starter clean_title then ideas @ [clean_title] else ideas)"

definition seo_why_question :: "string \<Rightarrow> string" where
  "seo_why_question sent =
     ''Why is '' @ (py_lower_char (hd sent) # tl sent) @ '' Important for Your Business?''"

fun seo_sentence_ideas :: "string list \<Rightarrow> string list \<Rightarrow> string list" where
  "seo_sentence_ideas [] ideas = ideas"
| "seo_sentence_ideas (sent # sents) ideas =
     seo_sentence_ideas sents
       (if length (py_split sent) > 8 \<and> length (py_split sent) < 20
        then ideas @ [seo_why_question sent]
        else ideas)"

text \<open>
  Idea 2 of \<^verbatim>\<open>seo.py\<close> for one article (lines 126 to 132): the tokenizer, the first two
  sentences, and nothing when the tokenizer raises. The link of the article is not used.
\<close>

definition seo_summary_ideas ::
  "(string \<Rightarrow> string list option) \<Rightarrow> article \<Rightarrow> string list \<Rightarrow> string list" where
  "seo_summary_ideas sent_tokenize a ideas =
     (case sent_tokenize (summary a) of
        None \<Rightarrow> ideas
      | Some sentences \<Rightarrow> seo_sentence_ideas (take 2 sentences) ideas)"

definition seo_rank_ideas :: "string list \<Rightarrow> string list" where
  "seo_rank_ideas ideas = map fst (most_common NUM_SUGGESTIONS (Counter ideas))"

text \<open>
  In \<^verbatim>\<open>test.py\<close> (lines 124 to 132) the ideas are made unique in the order of their first
  occurrence and cut to \<^verbatim>\<open>NUM_SUGGESTIONS\<close>; they are not counted.
\<close>

fun unique_ideas_loop :: "idea list \<Rightarrow> string set \<Rightarrow> idea list \<Rightarrow> idea list" where
  "unique_ideas_loop [] seen unique_ideas = unique_ideas"
| "unique_ideas_loop ((idea, lnk) # rest) seen unique_ideas =
     (if idea \<notin> seen
      then unique_ideas_loop rest (insert idea seen) (unique_ideas @ [(idea, lnk)])
      else unique_ideas_loop rest seen unique_ideas)"

definition test_rank_ideas :: "idea list \<Rightarrow> idea list" where
  "test_rank_ideas ideas = take NUM_SUGGESTIONS (unique_ideas_loop ideas {} [])"

subsection \<open>The order of first occurrence\<close>

text \<open>
  For the statements about deduplication: the distinct elements of a list in the order
  in which they first occur, and the position at which an element first occurs.
\<close>

fun first_seen :: "'a list \<Rightarrow> 'a list" where
  "first_seen [] = []"
| "first_seen (x # xs) = x # removeAll x (first_seen xs)"

definition first_index :: "'a \<Rightarrow> 'a list \<Rightarrow> nat" where
  "first_index x xs = length (takeWhile (\<lambda>y. y \<noteq> x) xs)"

section \<open>Trending keywords\<close>

text \<open>
  \<^verbatim>\<open>main\<close>, lines 203 and 204: the keywords of the first \<^verbatim>\<open>NUM_ARTICLES_TO_SCAN\<close> ranked
  articles, counted, and the 20 most common of them.
\<close>

definition trending_keywords :: "article list \<Rightarrow> (string \<times> nat) list" where
  "trending_keywords scored_articles =
     (let all_keywords = concat (map keywords (take NUM_ARTICLES_TO_SCAN scored_articles))
      in most_common 20 (Counter all_keywords))"

section \<open>The scanner returns the whole words\<close>

lemma not_upper_lower: "\<not> ascii_upper (py_lower_char c)"
  by (auto simp: ascii_upper_def py_lower_char_def py_isupper_def Let_def)

lemma alpha_imp_word: "re_alpha c \<Longrightarrow> re_word c"
  by (simp add: re_word_def)

text \<open>
  Giving letters back never helps: inside the run of letters the next character is a
  letter, hence a word character, and \<^verbatim>\<open>\b\<close> fails.
\<close>

lemma try_len_inside:
  assumes "l < length (takeWhile re_alpha rest)"
  shows "try_len rest l = None"
  using assms
proof (induction rest l rule: try_len.induct)
  case (1 rest l)
  show ?case
  proof (cases "l < 3")
    case True
    then show ?thesis by (subst try_len.simps) simp
  next
    case False
    from "1.prems" have lt: "l < length rest"
      using length_takeWhile_le [of re_alpha rest] by linarith
    have nxt: "re_alpha (rest ! l)"
      using "1.prems" by (metis nth_mem set_takeWhileD takeWhile_nth)
    have prv: "re_alpha (rest ! (l - 1))"
      using "1.prems" False
      by (metis diff_less less_imp_diff_less nth_mem set_takeWhileD takeWhile_nth
          zero_less_one not_less_zero gr_zeroI)
    have "take l rest \<noteq> []"
      using False lt by auto
    then have "last (take l rest) = take l rest ! (length (take l rest) - 1)"
      by (rule last_conv_nth)
    also have "\<dots> = rest ! (l - 1)"
      using False lt by simp
    finally have lst: "last (take l rest) = rest ! (l - 1)" .
    have pk: "peek (drop l rest) = Some (rest ! l)"
      using lt by (cases "drop l rest") (auto simp: hd_drop_conv_nth dest: arg_cong [where f = hd])
    have nb: "\<not> word_boundary (Some (last (take l rest))) (peek (drop l rest))"
      using nxt prv by (simp add: lst pk word_boundary_def alpha_imp_word)
    have "try_len rest (l - 1) = None"
      using "1.IH" False nb "1.prems" by simp
    then show ?thesis
      using False nb by (subst try_len.simps) simp
  qed
qed

lemma run_is_word_iff:
  "list_all re_alpha (takeWhile re_word s) \<longleftrightarrow> takeWhile re_word s = takeWhile re_alpha s"
  by (induction s) (auto simp: alpha_imp_word)

lemma run_is_word_next:
  "takeWhile re_word s = takeWhile re_alpha s \<longleftrightarrow>
     \<not> is_word_opt (peek (dropWhile re_alpha s))"
  by (induction s) (auto simp: alpha_imp_word)

lemma take_run: "take (length (takeWhile P s)) s = takeWhile P s"
  by (induction s) auto

lemma drop_run: "drop (length (takeWhile P s)) s = dropWhile P s"
  by (induction s) auto

text \<open>
  At the run of letters, the match succeeds exactly when the run is the whole word and
  has three letters or more.
\<close>

lemma try_len_run:
  "try_len rest (length (takeWhile re_alpha rest)) =
     (if whole_token (takeWhile re_word rest)
      then Some (length (takeWhile re_word rest)) else None)"
proof -
  let ?run = "takeWhile re_alpha rest"
  let ?m = "length ?run"
  show ?thesis
  proof (cases "?m < 3")
    case True
    then have "try_len rest ?m = None"
      by (subst try_len.simps) simp
    moreover have "\<not> whole_token (takeWhile re_word rest)"
      using True by (auto simp: whole_token_def run_is_word_iff)
    ultimately show ?thesis by simp
  next
    case False
    then have ne: "?run \<noteq> []" by auto
    have "last (take ?m rest) = last ?run"
      by (simp add: take_run)
    moreover have "re_alpha (last ?run)"
      using ne by (meson last_in_set set_takeWhileD)
    ultimately have w: "is_word_opt (Some (last (take ?m rest)))"
      by (simp add: alpha_imp_word)
    have b: "word_boundary (Some (last (take ?m rest))) (peek (drop ?m rest))
              \<longleftrightarrow> takeWhile re_word rest = ?run"
      using w by (simp add: word_boundary_def drop_run run_is_word_next)
    show ?thesis
    proof (cases "takeWhile re_word rest = ?run")
      case True
      then have "try_len rest ?m = Some ?m"
        using False b by (subst try_len.simps) simp
      moreover have "whole_token (takeWhile re_word rest)"
        using True False run_is_word_iff [of rest] by (simp add: whole_token_def)
      ultimately show ?thesis using True by simp
    next
      case neq: False
      have "try_len rest (?m - 1) = None"
        using False by (intro try_len_inside) simp
      then have "try_len rest ?m = None"
        using False b neq by (subst try_len.simps) simp
      moreover have "\<not> whole_token (takeWhile re_word rest)"
        using neq by (simp add: whole_token_def run_is_word_iff)
      ultimately show ?thesis by simp
    qed
  qed
qed

text \<open>
  The scanner in any state: before a word it returns the whole tokens among the words
  of the rest; inside a word it first skips to the end of that word.
\<close>

lemma findall_words_runs_gen:
  "findall_words prev s =
     filter whole_token (word_runs (if is_word_opt prev then dropWhile re_word s else s))"
proof (induction prev s rule: findall_words.induct)
  case (1 prev)
  show ?case by simp
next
  case (2 prev c cs)
  show ?case
  proof (cases "is_word_opt prev")
    case inword: True
    show ?thesis
    proof (cases "re_word c")
      case True
      then have "match_here prev (c # cs) = None"
        using inword by (simp add: match_here_def word_boundary_def)
      then show ?thesis
        using "2.IH"(1) True inword by simp
    next
      case False
      then have "\<not> re_alpha c" using alpha_imp_word by blast
      then have "try_len (c # cs) (length (takeWhile re_alpha (c # cs))) = None"
        by (subst try_len.simps) simp
      then have "match_here prev (c # cs) = None"
        by (simp add: match_here_def)
      then show ?thesis
        using "2.IH"(1) False inword by simp
    qed
  next
    case fresh: False
    show ?thesis
    proof (cases "re_word c")
      case False
      then have "match_here prev (c # cs) = None"
        using fresh by (simp add: match_here_def word_boundary_def)
      then show ?thesis
        using "2.IH"(1) False fresh by simp
    next
      case True
      let ?W = "takeWhile re_word (c # cs)"
      have mh: "match_here prev (c # cs) = (if whole_token ?W then Some (length ?W) else None)"
        using fresh True by (simp add: match_here_def word_boundary_def try_len_run del: takeWhile.simps)
      show ?thesis
      proof (cases "whole_token ?W")
        case False
        then show ?thesis
          using "2.IH"(1) mh True fresh by simp
      next
        case whole: True
        have lw: "re_word (last ?W)"
          using True by (metis last_in_set list.discI set_takeWhileD takeWhile.simps(2))
        have "findall_words prev (c # cs) =
                ?W # findall_words (Some (last ?W)) (dropWhile re_word (c # cs))"
          using mh whole by (simp add: take_run drop_run del: takeWhile.simps dropWhile.simps)
        also have "findall_words (Some (last ?W)) (dropWhile re_word (c # cs)) =
                filter whole_token (word_runs (dropWhile re_word (dropWhile re_word (c # cs))))"
          using "2.IH"(2) [of "length ?W"] mh whole lw
          by (simp add: take_run drop_run del: takeWhile.simps dropWhile.simps)
        finally show ?thesis
          using True fresh whole by (simp add: dropWhile_idem)
      qed
    qed
  qed
qed

lemma findall_words_runs:
  "findall_words None s = filter whole_token (word_runs s)"
  by (simp add: findall_words_runs_gen)

lemma word_runs_chars: "w \<in> set (word_runs s) \<Longrightarrow> set w \<subseteq> set s"
proof (induction s arbitrary: w rule: word_runs.induct)
  case 1
  then show ?case by simp
next
  case (2 c cs)
  show ?case
  proof (cases "re_word c")
    case False
    with 2 show ?thesis by auto
  next
    case True
    from "2.prems" True
    consider "w = takeWhile re_word (c # cs)" | "w \<in> set (word_runs (dropWhile re_word cs))"
      by auto
    then show ?thesis
    proof cases
      case 1
      then show ?thesis by (auto dest: set_takeWhileD)
    next
      case 2
      then have "set w \<subseteq> set (dropWhile re_word cs)"
        using "2.IH"(1) True by blast
      then show ?thesis
        by (auto dest: set_dropWhileD)
    qed
  qed
qed

text \<open>Every token of \<open>clean_text\<close> is made of at least three lower-case letters.\<close>

lemma clean_text_token:
  assumes "t \<in> set (clean_text text)"
  shows "3 \<le> length t \<and> list_all ascii_lower t"
proof -
  from assms have w: "whole_token t" and r: "t \<in> set (word_runs (py_lower text))"
    by (simp_all add: clean_text_def findall_words_runs)
  have "ascii_lower c" if "c \<in> set t" for c
  proof -
    from that r have "c \<in> set (py_lower text)"
      using word_runs_chars by blast
    then have "\<not> ascii_upper c"
      by (auto simp: py_lower_def not_upper_lower)
    moreover from w that have "re_alpha c"
      by (simp add: whole_token_def list_all_iff)
    ultimately show ?thesis
      by (simp add: re_alpha_def)
  qed
  with w show ?thesis
    by (simp add: whole_token_def list_all_iff)
qed

section \<open>Python's stable sort in descending order\<close>

lemma mset_py_sorted_reverse: "mset (py_sorted_reverse key xs) = mset xs"
  by (simp add: py_sorted_reverse_def)

lemma set_py_sorted_reverse: "set (py_sorted_reverse key xs) = set xs"
  by (simp add: py_sorted_reverse_def)

lemma length_py_sorted_reverse: "length (py_sorted_reverse key xs) = length xs"
  by (simp add: py_sorted_reverse_def)

lemma py_sorted_reverse_descending:
  "sorted_wrt (\<lambda>x y. key y \<le> key x) (py_sorted_reverse key xs)"
proof -
  have "sorted (map key (sort_key key (rev xs)))"
    by (rule sorted_sort_key)
  then have "sorted_wrt (\<lambda>x y. key x \<le> key y) (sort_key key (rev xs))"
    by (simp add: sorted_wrt_map)
  then show ?thesis
    by (simp add: py_sorted_reverse_def sorted_wrt_rev)
qed

lemma py_sorted_reverse_stable:
  "filter (\<lambda>x. key x = k) (py_sorted_reverse key xs) = filter (\<lambda>x. key x = k) xs"
proof -
  have "filter (\<lambda>x. key x = k) (py_sorted_reverse key xs)
          = rev (filter (\<lambda>x. key x = k) (sort_key key (rev xs)))"
    by (simp add: py_sorted_reverse_def rev_filter)
  also have "\<dots> = rev (filter (\<lambda>x. key x = k) (rev xs))"
    by (simp only: sort_key_stable)
  also have "\<dots> = filter (\<lambda>x. key x = k) xs"
    by (simp add: rev_filter)
  finally show ?thesis .
qed

text \<open>A list is sorted for a relation when every pair taken from it in order is related.\<close>

lemma sorted_wrt_pairs:
  "sorted_wrt R xs \<longleftrightarrow> (\<forall>x y. subseq [x, y] xs \<longrightarrow> R x y)"
proof (induction xs)
  case Nil
  show ?case by simp
next
  case (Cons a xs)
  have "subseq [x, y] (a # xs) \<longleftrightarrow> (x = a \<and> y \<in> set xs) \<or> subseq [x, y] xs" for x y
    by (auto simp: subseq_singleton_left subseq_Cons' elim: list_emb.cases
        dest: list_emb_set [where x = y])
  with Cons show ?case by auto
qed

text \<open>
  Elements with equal keys keep the order they had before the sort: whatever order \<open>Q\<close>
  the input has, the output has it among equal keys.
\<close>

lemma py_sorted_reverse_ties:
  assumes "sorted_wrt Q xs"
  shows "sorted_wrt (\<lambda>x y. key y < key x \<or> (key x = key y \<and> Q x y))
           (py_sorted_reverse key xs)"
proof -
  let ?S = "py_sorted_reverse key xs"
  have "key y < key x \<or> (key x = key y \<and> Q x y)" if sub: "subseq [x, y] ?S" for x y
  proof (cases "key x = key y")
    case False
    from sub have "key y \<le> key x"
      using py_sorted_reverse_descending [of key xs] by (simp add: sorted_wrt_pairs)
    with False show ?thesis by simp
  next
    case True
    from sub have "subseq (filter (\<lambda>z. key z = key y) [x, y]) (filter (\<lambda>z. key z = key y) ?S)"
      by (rule subseq_filter)
    then have "subseq [x, y] (filter (\<lambda>z. key z = key y) xs)"
      using True by (simp add: py_sorted_reverse_stable)
    then have "subseq [x, y] xs"
      using subseq_filter_left subseq_order.order_trans by blast
    with assms have "Q x y"
      by (simp add: sorted_wrt_pairs)
    with True show ?thesis by simp
  qed
  then show ?thesis
    by (simp add: sorted_wrt_pairs)
qed

section \<open>The articles that are scored\<close>

lemma process_entries_length:
  "length (process_entries clock nltk ck k es) = length es"
  by (induction es arbitrary: k) auto

lemma process_entries_nth:
  "i < length es \<Longrightarrow>
     process_entries clock nltk ck k es ! i = make_article nltk ck (clock (k + i)) (es ! i)"
proof (induction es arbitrary: k i)
  case Nil
  then show ?case by simp
next
  case (Cons e es)
  then show ?case by (cases i) auto
qed

lemma process_entries_made:
  assumes "a \<in> set (process_entries clock nltk ck k es)"
  shows "\<exists>t e. a = make_article nltk ck t e"
  using assms by (induction es arbitrary: k) auto

lemma fetched_made:
  assumes "a \<in> set (fetch_and_score_articles clock nltk feeds ck)"
  shows "\<exists>t e. a = make_article nltk ck t e"
  using assms process_entries_made
  by (simp add: fetch_and_score_articles_def rank_articles_def set_py_sorted_reverse)

lemma make_article_score:
  "score (make_article nltk ck t e) = card (set (keywords (make_article nltk ck t e)) \<inter> ck)"
  by (simp add: make_article_def Let_def)

lemma make_article_keywords:
  "keywords (make_article nltk ck t e) =
     filter (\<lambda>w. w \<notin> STOPWORDS nltk) (clean_text (e_title e @ '' '' @ get_summary e []))"
  by (simp add: make_article_def Let_def)

lemma make_article_published:
  "published (make_article nltk ck t e) =
     (case e_published_parsed e of Some d \<Rightarrow> d | None \<Rightarrow> t)"
  by (simp add: make_article_def Let_def)


section \<open>Counters\<close>

lemma counter_add_keys: "fst ` set (counter_add x c) = insert x (fst ` set c)"
proof (induction c)
  case Nil
  show ?case by simp
next
  case (Cons p c)
  obtain y n where p: "p = (y, n)" by (cases p)
  show ?case
  proof (cases "x = y")
    case True
    then show ?thesis by (simp add: p)
  next
    case False
    then show ?thesis using Cons by (simp add: p insert_commute)
  qed
qed

lemma fold_counter_add_keys: "fst ` set (fold counter_add xs c) = set xs \<union> fst ` set c"
  by (induction xs arbitrary: c) (auto simp: counter_add_keys)

lemma Counter_keys: "fst ` set (Counter xs) = set xs"
  by (simp add: Counter_def fold_counter_add_keys)

lemma counter_add_distinct:
  "distinct (map fst c) \<Longrightarrow> distinct (map fst (counter_add x c))"
proof (induction c)
  case Nil
  then show ?case by simp
next
  case (Cons p c)
  obtain y n where p: "p = (y, n)" by (cases p)
  show ?case
  proof (cases "x = y")
    case True
    with Cons.prems p show ?thesis by simp
  next
    case False
    have "y \<notin> fst ` set (counter_add x c)"
      using Cons.prems p False by (simp add: counter_add_keys)
    with Cons p False show ?thesis by simp
  qed
qed

lemma fold_counter_add_distinct:
  "distinct (map fst c) \<Longrightarrow> distinct (map fst (fold counter_add xs c))"
  by (induction xs arbitrary: c) (simp_all add: counter_add_distinct)

lemma Counter_distinct: "distinct (map fst (Counter xs))"
  by (simp add: Counter_def fold_counter_add_distinct)

lemma counter_get_add:
  "counter_get (counter_add x c) y =
     (if x = y then Suc (counter_get c y) else counter_get c y)"
  by (induction c) (auto simp: counter_get_def)

lemma counter_get_fold:
  "counter_get (fold counter_add xs c) y = counter_get c y + count_list xs y"
  by (induction xs arbitrary: c) (auto simp: counter_get_add)

lemma counter_get_Counter: "counter_get (Counter xs) y = count_list xs y"
  by (simp add: Counter_def counter_get_fold) (simp add: counter_get_def)


lemma most_common_subset: "set (most_common n c) \<subseteq> set c"
  unfolding most_common_def
  using set_take_subset [of n "py_sorted_reverse snd c"]
  by (simp add: set_py_sorted_reverse)

text \<open>In a sorted list, an element that may not come after another one comes before it.\<close>

lemma sorted_wrt_precedes:
  assumes "sorted_wrt R out" and "a \<in> set out" and "b \<in> set out"
    and "\<not> R b a" and "a \<noteq> b"
  shows "\<exists>xs ys zs. out = xs @ a # ys @ b # zs"
proof -
  from \<open>a \<in> set out\<close> obtain xs rest where out: "out = xs @ a # rest"
    by (auto dest: split_list)
  have "b \<notin> set xs"
  proof
    assume "b \<in> set xs"
    with assms(1) out have "R b a"
      by (simp add: sorted_wrt_append)
    with \<open>\<not> R b a\<close> show False by simp
  qed
  with \<open>b \<in> set out\<close> \<open>a \<noteq> b\<close> out have "b \<in> set rest"
    by auto
  then obtain ys zs where "rest = ys @ b # zs"
    by (auto dest: split_list)
  with out show ?thesis by blast
qed


section \<open>The ideas that are generated\<close>

lemma py_in_iff: "py_in sub s \<longleftrightarrow> (\<exists>ps ss. s = ps @ sub @ ss)"
proof -
  have "py_in sub s \<longleftrightarrow> sublist sub s"
    by (induction s) (simp_all add: sublist_Cons_right)
  then show ?thesis
    by (simp add: sublist_def)
qed

lemma title_ideas_append: "title_ideas a ideas = ideas @ title_ideas a []"
  by (simp add: title_ideas_def Let_def)

lemma sentence_ideas_filter:
  "sentence_ideas source_link sents ideas =
     ideas @ map (\<lambda>sent. (why_question (lower_first sent), source_link))
               (filter (\<lambda>sent. 8 < length (py_split sent) \<and> length (py_split sent) < 20) sents)"
  by (induction sents arbitrary: ideas) auto

lemma seo_sentence_ideas_filter:
  "seo_sentence_ideas sents ideas =
     ideas @ map seo_why_question
               (filter (\<lambda>sent. 8 < length (py_split sent) \<and> length (py_split sent) < 20) sents)"
  by (induction sents arbitrary: ideas) auto

lemma summary_ideas_append:
  "summary_ideas sent_tokenize a ideas = ideas @ summary_ideas sent_tokenize a []"
  by (simp add: summary_ideas_def sentence_ideas_filter split: option.split)

lemma generate_ideas_concat:
  "generate_ideas sent_tokenize articles ideas =
     ideas @ concat (map (\<lambda>a. title_ideas a [] @ summary_ideas sent_tokenize a []) articles)"
proof (induction articles arbitrary: ideas)
  case Nil
  show ?case by simp
next
  case (Cons a articles)
  have "summary_ideas sent_tokenize a (title_ideas a ideas)
          = ideas @ title_ideas a [] @ summary_ideas sent_tokenize a []"
    using summary_ideas_append [of sent_tokenize a "title_ideas a ideas"]
      title_ideas_append [of a ideas] by simp
  then show ?case
    by (simp add: Cons.IH)
qed

lemma lower_char_not_upper: "\<not> py_isupper c \<Longrightarrow> py_lower_char c = c"
  by (simp add: py_lower_char_def)

text \<open>
  A sentence with a word is not empty, so \<^verbatim>\<open>sent[0]\<close> of \<^verbatim>\<open>seo.py\<close> is defined wherever
  it is evaluated.
\<close>

lemma many_words_not_empty: "8 < length (py_split sent) \<Longrightarrow> sent \<noteq> []"
  by (auto simp: py_split_def)

section \<open>Deduplication\<close>



lemma first_index_Cons:
  "first_index y (x # xs) = (if x = y then 0 else Suc (first_index y xs))"
  by (simp add: first_index_def)

lemma first_seen_sorted:
  "sorted_wrt (\<lambda>s t. first_index s xs < first_index t xs) (first_seen xs)"
proof (induction xs)
  case Nil
  show ?case by simp
next
  case (Cons x xs)
  let ?R = "\<lambda>s t. first_index s xs < first_index t xs"
  let ?R' = "\<lambda>s t. first_index s (x # xs) < first_index t (x # xs)"
  have "sorted_wrt ?R (removeAll x (first_seen xs))"
    using Cons.IH by (simp add: removeAll_filter_not_eq sorted_wrt_filter)
  then have "sorted_wrt ?R' (removeAll x (first_seen xs))"
    by (rule sorted_wrt_mono_rel [rotated]) (auto simp: first_index_Cons)
  then show ?case
    by (auto simp: first_index_Cons)
qed

lemma unique_loop_append:
  "unique_loop counter ideas seen acc = acc @ unique_loop counter ideas seen []"
proof (induction ideas arbitrary: seen acc)
  case Nil
  show ?case by simp
next
  case (Cons p ideas)
  obtain i l where p: "p = (i, l)" by (cases p)
  show ?case
  proof (cases "i \<in> seen")
    case True
    then show ?thesis using Cons.IH [of seen acc] by (simp add: p)
  next
    case False
    then show ?thesis
      using Cons.IH [of "insert i seen" "acc @ [(i, l, counter_get counter i)]"]
        Cons.IH [of "insert i seen" "[(i, l, counter_get counter i)]"]
      by (simp add: p)
  qed
qed

lemma unique_loop_texts:
  "map fst (unique_loop counter ideas seen []) =
     filter (\<lambda>t. t \<notin> seen) (first_seen (map fst ideas))"
proof (induction ideas arbitrary: seen)
  case Nil
  show ?case by simp
next
  case (Cons p ideas)
  obtain i l where p: "p = (i, l)" by (cases p)
  let ?fs = "first_seen (map fst ideas)"
  show ?case
  proof (cases "i \<in> seen")
    case True
    then have "filter (\<lambda>t. t \<notin> seen) (removeAll i ?fs) = filter (\<lambda>t. t \<notin> seen) ?fs"
      by (auto simp: removeAll_filter_not_eq intro: filter_cong)
    then show ?thesis
      using True Cons.IH [of seen] by (simp add: p)
  next
    case False
    have "filter (\<lambda>t. t \<notin> insert i seen) ?fs = filter (\<lambda>t. t \<notin> seen) (removeAll i ?fs)"
      by (auto simp: removeAll_filter_not_eq intro: filter_cong)
    then show ?thesis
      using False Cons.IH [of "insert i seen"]
        unique_loop_append [of counter ideas "insert i seen" "[(i, l, counter_get counter i)]"]
      by (simp add: p)
  qed
qed

lemma unique_loop_entry:
  assumes "(t, l, n) \<in> set (unique_loop counter ideas seen [])"
  shows "map_of ideas t = Some l \<and> n = counter_get counter t \<and> t \<notin> seen"
  using assms
proof (induction ideas arbitrary: seen)
  case Nil
  then show ?case by simp
next
  case (Cons p ideas)
  obtain i m where p: "p = (i, m)" by (cases p)
  show ?case
  proof (cases "i \<in> seen")
    case True
    with Cons.prems p have "(t, l, n) \<in> set (unique_loop counter ideas seen [])"
      by simp
    from Cons.IH [OF this] True show ?thesis
      by (auto simp: p)
  next
    case False
    with Cons.prems p
    have "(t, l, n) \<in> set ([(i, m, counter_get counter i)]
             @ unique_loop counter ideas (insert i seen) [])"
      using unique_loop_append [of counter ideas "insert i seen" "[(i, m, counter_get counter i)]"]
      by simp
    then consider "(t, l, n) = (i, m, counter_get counter i)"
      | "(t, l, n) \<in> set (unique_loop counter ideas (insert i seen) [])"
      by auto
    then show ?thesis
    proof cases
      case 1
      with False show ?thesis by (simp add: p)
    next
      case 2
      from Cons.IH [OF this] show ?thesis
        by (auto simp: p)
    qed
  qed
qed

lemma unique_ordered_texts: "map fst (unique_ordered ideas) = first_seen (map fst ideas)"
  by (simp add: unique_ordered_def unique_loop_texts)

lemma unique_ordered_entry:
  assumes "(t, l, n) \<in> set (unique_ordered ideas)"
  shows "map_of ideas t = Some l \<and> n = count_list (map fst ideas) t"
  using unique_loop_entry [of t l n "Counter (map fst ideas)" ideas "{}"] assms
  by (simp add: unique_ordered_def counter_get_Counter)

lemma unique_ideas_loop_append:
  "unique_ideas_loop ideas seen acc = acc @ unique_ideas_loop ideas seen []"
proof (induction ideas arbitrary: seen acc)
  case Nil
  show ?case by simp
next
  case (Cons p ideas)
  obtain i l where p: "p = (i, l)" by (cases p)
  show ?case
  proof (cases "i \<in> seen")
    case True
    then show ?thesis using Cons.IH [of seen acc] by (simp add: p)
  next
    case False
    then show ?thesis
      using Cons.IH [of "insert i seen" "acc @ [(i, l)]"]
        Cons.IH [of "insert i seen" "[(i, l)]"]
      by (simp add: p)
  qed
qed

text \<open>
  The loop of \<^verbatim>\<open>test.py\<close> builds what the loop of \<^verbatim>\<open>seonew.py\<close> builds, without the
  counts.
\<close>

lemma unique_ideas_loop_unique_loop:
  "unique_ideas_loop ideas seen [] =
     map (\<lambda>x. (fst x, fst (snd x))) (unique_loop counter ideas seen [])"
proof (induction ideas arbitrary: seen)
  case Nil
  show ?case by simp
next
  case (Cons p ideas)
  obtain i l where p: "p = (i, l)" by (cases p)
  show ?case
  proof (cases "i \<in> seen")
    case True
    then show ?thesis using Cons.IH [of seen] by (simp add: p)
  next
    case False
    then show ?thesis
      using Cons.IH [of "insert i seen"]
        unique_ideas_loop_append [of ideas "insert i seen" "[(i, l)]"]
        unique_loop_append [of counter ideas "insert i seen" "[(i, l, counter_get counter i)]"]
      by (simp add: p)
  qed
qed

section \<open>The claims\<close>

subsection \<open>Text normalizer\<close>

text \<open>
  C8: for every input text, every token that \<open>clean_text\<close> returns has at least three
  characters, all of them lower-case letters \<open>a\<close> to \<open>z\<close>; the empty text yields the empty
  sequence.
\<close>

theorem clean_text_lowercase_alphabetic:
  "(\<forall>t \<in> set (clean_text text). 3 \<le> length t \<and> list_all ascii_lower t)
   \<and> clean_text [] = []"
  by (simp add: clean_text_token) (simp add: clean_text_def py_lower_def)

theorem clean_text_lowercase_alphabetic_witness:
  "clean_text ''The SEO-2024 Guide: 10 Tips'' = [''the'', ''seo'', ''guide'', ''tips'']
   \<and> list_all (\<lambda>t. 3 \<le> length t \<and> list_all ascii_lower t)
        (clean_text ''The SEO-2024 Guide: 10 Tips'')
   \<and> clean_text [] = []"
proof -
  have ev: "clean_text ''The SEO-2024 Guide: 10 Tips'' = [''the'', ''seo'', ''guide'', ''tips'']"
    by code_simp
  show ?thesis
    using clean_text_lowercase_alphabetic [of "''The SEO-2024 Guide: 10 Tips''"]
    by (simp add: ev list_all_iff)
qed





subsection \<open>Relevance scoring and ranking of the articles\<close>

text \<open>
  C4: for every list of scored articles, ranking returns a permutation of the list,
  sorted in descending order by score and, among equal scores, by published time (the
  most recent first); the articles of equal score and equal published time are in the
  output in the order they had in the input.
\<close>

theorem rank_articles_stable_permutation:
  "mset (rank_articles articles) = mset articles
   \<and> sorted_wrt (\<lambda>a b. score b < score a \<or> (score a = score b \<and> published b \<le> published a))
        (rank_articles articles)
   \<and> (\<forall>s p. filter (\<lambda>x. score x = s \<and> published x = p) (rank_articles articles)
             = filter (\<lambda>x. score x = s \<and> published x = p) articles)"
proof -
  let ?key = "\<lambda>x. (score x, published x)"
  have "sorted_wrt (\<lambda>a b. ?key b \<le> ?key a) (rank_articles articles)"
    unfolding rank_articles_def by (rule py_sorted_reverse_descending)
  then have "sorted_wrt (\<lambda>a b. score b < score a \<or> (score a = score b \<and> published b \<le> published a))
        (rank_articles articles)"
    by (rule sorted_wrt_mono_rel [rotated]) auto
  moreover have "filter (\<lambda>x. score x = s \<and> published x = p) (rank_articles articles)
             = filter (\<lambda>x. score x = s \<and> published x = p) articles" for s p
    using py_sorted_reverse_stable [of ?key "(s, p)" articles]
    by (simp add: rank_articles_def)
  ultimately show ?thesis
    by (simp add: rank_articles_def mset_py_sorted_reverse)
qed

theorem rank_articles_stable_permutation_witness:
  "map link (rank_articles [example_article ''a'' 1 5, example_article ''b'' 2 9,
                            example_article ''c'' 1 5, example_article ''d'' 1 7])
     = [''b'', ''d'', ''a'', ''c'']
   \<and> mset (rank_articles [example_article ''a'' 1 5, example_article ''b'' 2 9,
                            example_article ''c'' 1 5, example_article ''d'' 1 7])
     = mset [example_article ''a'' 1 5, example_article ''b'' 2 9,
             example_article ''c'' 1 5, example_article ''d'' 1 7]"
proof -
  let ?xs = "[example_article ''a'' 1 5, example_article ''b'' 2 9,
              example_article ''c'' 1 5, example_article ''d'' 1 7]"
  have "map link (rank_articles ?xs) = [''b'', ''d'', ''a'', ''c'']"
    by code_simp
  moreover have "mset (rank_articles ?xs) = mset ?xs"
    using rank_articles_stable_permutation [of ?xs] by blast
  ultimately show ?thesis by blast
qed

text \<open>
  C5: the score of every article that \<open>fetch_and_score_articles\<close> returns is the number
  of elements that the set of its keywords shares with the reference set; with the empty
  reference set every score is 0. The guarded score of \<^verbatim>\<open>test.py\<close> is the same number.
\<close>

theorem score_is_overlap:
  "(\<forall>a \<in> set (fetch_and_score_articles clock nltk feeds company_keywords).
      score a = card (set (keywords a) \<inter> company_keywords))
   \<and> (\<forall>a \<in> set (fetch_and_score_articles clock nltk feeds {}). score a = 0)
   \<and> overlap_score kws company_keywords = card (set kws \<inter> company_keywords)"
proof -
  have "score a = card (set (keywords a) \<inter> ck)"
    if "a \<in> set (fetch_and_score_articles clock nltk feeds ck)" for a ck
    using fetched_made [OF that] make_article_score by auto
  then show ?thesis
    by (fastforce simp: overlap_score_def)
qed

theorem score_is_overlap_witness:
  "map score (fetch_and_score_articles (fixed_clock 200) [''the'', ''of''] example_feeds
               (set [''content'', ''marketing''])) = [2, 1]
   \<and> map (\<lambda>a. card (set (keywords a) \<inter> set [''content'', ''marketing'']))
         (fetch_and_score_articles (fixed_clock 200) [''the'', ''of''] example_feeds
            (set [''content'', ''marketing''])) = [2, 1]
   \<and> overlap_score [''content'', ''tips''] {} = 0"
proof -
  let ?F = "fetch_and_score_articles (fixed_clock 200) [''the'', ''of''] example_feeds
              (set [''content'', ''marketing''])"
  have ev: "map score ?F = [2, 1]"
    by code_simp
  have "\<forall>a \<in> set ?F. score a = card (set (keywords a) \<inter> set [''content'', ''marketing''])"
    using score_is_overlap [of "fixed_clock 200" "[''the'', ''of'']" example_feeds
        "set [''content'', ''marketing'']"] by blast
  then have "map (\<lambda>a. card (set (keywords a) \<inter> set [''content'', ''marketing''])) ?F
               = map score ?F"
    by simp
  with ev show ?thesis
    by (simp add: overlap_score_def)
qed


text \<open>
  C6, as the code has it: when the publish time of an entry fails to parse, the reading
  of the clock while the entry is processed is its published time; the article is among
  the ranked articles, and it stands before every article of equal score whose published
  time is earlier than that reading. The ranking puts the most recent first, so such an
  article is at the top of its score, not at the bottom.
\<close>

theorem unparsed_date_ranked_first:
  assumes "i < length (concat feeds)"
    and "e_published_parsed (concat feeds ! i) = None"
  shows "\<exists>a \<in> set (fetch_and_score_articles clock nltk feeds ck).
           title a = e_title (concat feeds ! i) \<and> link a = e_link (concat feeds ! i)
           \<and> published a = clock i
           \<and> (\<forall>b \<in> set (fetch_and_score_articles clock nltk feeds ck).
                 score b = score a \<and> published b < clock i \<longrightarrow>
                 (\<exists>xs ys zs. fetch_and_score_articles clock nltk feeds ck = xs @ a # ys @ b # zs))"
proof -
  let ?es = "concat feeds"
  let ?out = "fetch_and_score_articles clock nltk feeds ck"
  let ?a = "make_article nltk ck (clock i) (?es ! i)"
  let ?key = "\<lambda>x. (score x, published x)"
  have "process_entries clock nltk ck 0 ?es ! i = ?a"
    using assms(1) process_entries_nth [of i ?es clock nltk ck 0] by simp
  then have "?a \<in> set (process_entries clock nltk ck 0 ?es)"
    using assms(1) by (metis nth_mem process_entries_length)
  then have mem: "?a \<in> set ?out"
    by (simp add: fetch_and_score_articles_def rank_articles_def set_py_sorted_reverse)
  have pub: "published ?a = clock i"
    using assms(2) by (simp add: make_article_published)
  have srt: "sorted_wrt (\<lambda>x y. ?key y \<le> ?key x) ?out"
    unfolding fetch_and_score_articles_def rank_articles_def
    by (rule py_sorted_reverse_descending)
  have "\<exists>xs ys zs. ?out = xs @ ?a # ys @ b # zs"
    if b: "b \<in> set ?out" and eq: "score b = score ?a" and lt: "published b < clock i" for b
  proof (rule sorted_wrt_precedes [OF srt mem b])
    show "\<not> ?key ?a \<le> ?key b"
      using eq lt pub by simp
    show "?a \<noteq> b"
      using lt pub by auto
  qed
  moreover have "title ?a = e_title (?es ! i)" and "link ?a = e_link (?es ! i)"
    by (simp_all add: make_article_def Let_def)
  ultimately show ?thesis
    using mem pub by blast
qed

theorem unparsed_date_ranked_first_witness:
  "1 < length (concat example_feeds)
   \<and> e_published_parsed (concat example_feeds ! 1) = None
   \<and> (\<exists>a \<in> set (fetch_and_score_articles (fixed_clock 200) [] example_feeds {}).
         title a = e_title (concat example_feeds ! 1)
         \<and> link a = e_link (concat example_feeds ! 1)
         \<and> published a = fixed_clock 200 1
         \<and> (\<forall>b \<in> set (fetch_and_score_articles (fixed_clock 200) [] example_feeds {}).
               score b = score a \<and> published b < fixed_clock 200 1 \<longrightarrow>
               (\<exists>xs ys zs. fetch_and_score_articles (fixed_clock 200) [] example_feeds {}
                               = xs @ a # ys @ b # zs)))"
proof -
  have h1: "1 < length (concat example_feeds)"
    by (simp add: example_feeds_def)
  have h2: "e_published_parsed (concat example_feeds ! 1) = None"
    by (simp add: example_feeds_def)
  show ?thesis
    using unparsed_date_ranked_first [OF h1 h2, of "fixed_clock 200" "[]" "{}"] h1 h2
    by blast
qed

text \<open>
  The claim as the specification states it fails: with no reference keywords both
  example articles score 0; the entry \<open>b\<close> has no publish time and gets the reading 200
  of the clock, later than the time 100 of the entry \<open>a\<close>, and it is ranked first of the
  two, not last.
\<close>

theorem unparsed_date_not_at_bottom:
  "map score (fetch_and_score_articles (fixed_clock 200) [] example_feeds {}) = [0, 0]
   \<and> map published (fetch_and_score_articles (fixed_clock 200) [] example_feeds {}) = [200, 100]
   \<and> map link (fetch_and_score_articles (fixed_clock 200) [] example_feeds {}) = [''b'', ''a'']"
  by code_simp

subsection \<open>Keywords\<close>

text \<open>
  C10: every keyword of every article that \<open>fetch_and_score_articles\<close> returns has at
  least three characters, all of them lower-case letters, and is not a stop word; the
  same holds of every keyword among the trending keywords.
\<close>

theorem keywords_are_clean:
  "(\<forall>a \<in> set (fetch_and_score_articles clock nltk feeds ck). \<forall>w \<in> set (keywords a).
       3 \<le> length w \<and> list_all ascii_lower w \<and> w \<notin> STOPWORDS nltk)
   \<and> (\<forall>(w, n) \<in> set (trending_keywords (fetch_and_score_articles clock nltk feeds ck)).
       3 \<le> length w \<and> list_all ascii_lower w \<and> w \<notin> STOPWORDS nltk)"
proof -
  let ?out = "fetch_and_score_articles clock nltk feeds ck"
  let ?ok = "\<lambda>w. 3 \<le> length w \<and> list_all ascii_lower w \<and> w \<notin> STOPWORDS nltk"
  have kw: "?ok w" if "a \<in> set ?out" and "w \<in> set (keywords a)" for a w
  proof -
    from fetched_made [OF that(1)] obtain t e where "a = make_article nltk ck t e"
      by blast
    with that(2) show ?thesis
      using clean_text_token by (auto simp: make_article_keywords)
  qed
  have "?ok w" if "(w, n) \<in> set (trending_keywords ?out)" for w n
  proof -
    let ?all = "concat (map keywords (take NUM_ARTICLES_TO_SCAN ?out))"
    from that have "(w, n) \<in> set (Counter ?all)"
      using most_common_subset by (auto simp: trending_keywords_def Let_def)
    then have "w \<in> fst ` set (Counter ?all)"
      by force
    then have "w \<in> set ?all"
      by (simp only: Counter_keys)
    then obtain a where "a \<in> set (take NUM_ARTICLES_TO_SCAN ?out)" and "w \<in> set (keywords a)"
      by auto
    then show ?thesis
      using kw by (blast dest: in_set_takeD)
  qed
  with kw show ?thesis by blast
qed

theorem keywords_are_clean_witness:
  "map keywords (fetch_and_score_articles (fixed_clock 200) [''the'', ''of''] example_feeds {})
     = [[''marketing'', ''content'', ''tips'', ''seo''], [''content'', ''strategy'']]
   \<and> map fst (trending_keywords
        (fetch_and_score_articles (fixed_clock 200) [''the'', ''of''] example_feeds {}))
     = [''content'', ''marketing'', ''tips'', ''seo'', ''strategy'']
   \<and> list_all (\<lambda>a. list_all (\<lambda>w. 3 \<le> length w \<and> list_all ascii_lower w
                                    \<and> w \<notin> STOPWORDS [''the'', ''of'']) (keywords a))
        (fetch_and_score_articles (fixed_clock 200) [''the'', ''of''] example_feeds {})"
proof -
  let ?F = "fetch_and_score_articles (fixed_clock 200) [''the'', ''of''] example_feeds {}"
  have "map keywords ?F = [[''marketing'', ''content'', ''tips'', ''seo''], [''content'', ''strategy'']]"
    by code_simp
  moreover have "map fst (trending_keywords ?F)
     = [''content'', ''marketing'', ''tips'', ''seo'', ''strategy'']"
    by code_simp
  moreover have "list_all (\<lambda>a. list_all (\<lambda>w. 3 \<le> length w \<and> list_all ascii_lower w
                                    \<and> w \<notin> STOPWORDS [''the'', ''of'']) (keywords a)) ?F"
    using keywords_are_clean [of "fixed_clock 200" "[''the'', ''of'']" example_feeds "{}"]
    by (simp add: list_all_iff)
  ultimately show ?thesis by blast
qed


subsection \<open>Topic ideas\<close>

text \<open>
  C1, as the code has it: the ideas that \<^verbatim>\<open>seonew.py\<close> generates from the first
  \<^verbatim>\<open>NUM_ARTICLES_TO_SCAN\<close> ranked articles are, article by article, the ideas of the title
  followed by the ideas of the summary. A title has a starter when its lower-cased text
  contains one of the lower-cased lead phrases. If it has one, the title contributes
  exactly one idea, the title itself: in \<^verbatim>\<open>seonew.py\<close> with the article's link, in
  \<^verbatim>\<open>seo.py\<close> as the text alone, for the ideas of \<^verbatim>\<open>seo.py\<close> carry no link. Otherwise
  \<^verbatim>\<open>seonew.py\<close> contributes the two rewrites that put \<open>How to\<close> and \<open>The Ultimate Guide to\<close>
  before the title, each with the article's link, and \<^verbatim>\<open>seo.py\<close> contributes nothing.
\<close>

theorem title_idea_verbatim_or_rewrite:
  "(has_starter (title a) \<longleftrightarrow>
      (\<exists>starter \<in> set (question_starters @ list_starters).
         \<exists>pre post. py_lower (title a) = pre @ py_lower starter @ post))
   \<and> (has_starter (title a) \<longrightarrow> title_ideas a ideas = ideas @ [(title a, link a)])
   \<and> (\<not> has_starter (title a) \<longrightarrow>
        title_ideas a ideas =
          ideas @ [(''How to '' @ title a, link a), (''The Ultimate Guide to '' @ title a, link a)])
   \<and> generate_ideas sent_tokenize (take NUM_ARTICLES_TO_SCAN articles) [] =
        concat (map (\<lambda>a. title_ideas a [] @ summary_ideas sent_tokenize a [])
                  (take NUM_ARTICLES_TO_SCAN articles))
   \<and> seo_title_ideas a texts = (if has_starter (title a) then texts @ [title a] else texts)"
proof -
  have "has_starter (title a) \<longleftrightarrow>
      (\<exists>starter \<in> set (question_starters @ list_starters).
         \<exists>pre post. py_lower (title a) = pre @ py_lower starter @ post)"
    unfolding has_starter_def list_ex_iff py_in_iff ..
  moreover have "generate_ideas sent_tokenize (take NUM_ARTICLES_TO_SCAN articles) [] =
        concat (map (\<lambda>a. title_ideas a [] @ summary_ideas sent_tokenize a [])
                  (take NUM_ARTICLES_TO_SCAN articles))"
    by (simp add: generate_ideas_concat)
  ultimately show ?thesis
    by (simp add: title_ideas_def seo_title_ideas_def Let_def)
qed

theorem title_idea_verbatim_or_rewrite_witness:
  "has_starter ''5 Ways to Improve Your SEO''
   \<and> title_ideas \<lparr>title = ''5 Ways to Improve Your SEO'', link = ''https://a.example/1'',
                   published = 0, summary = [], keywords = [], score = 0\<rparr> []
       = [(''5 Ways to Improve Your SEO'', ''https://a.example/1'')]
   \<and> \<not> has_starter ''SEO Tips''
   \<and> title_ideas \<lparr>title = ''SEO Tips'', link = ''https://a.example/2'',
                   published = 0, summary = [], keywords = [], score = 0\<rparr> []
       = [(''How to SEO Tips'', ''https://a.example/2''),
          (''The Ultimate Guide to SEO Tips'', ''https://a.example/2'')]
   \<and> seo_title_ideas \<lparr>title = ''5 Ways to Improve Your SEO'', link = ''https://a.example/1'',
                   published = 0, summary = [], keywords = [], score = 0\<rparr> []
       = [''5 Ways to Improve Your SEO'']"
proof -
  let ?a = "\<lparr>title = ''5 Ways to Improve Your SEO'', link = ''https://a.example/1'',
              published = 0, summary = [], keywords = [], score = 0\<rparr>"
  let ?b = "\<lparr>title = ''SEO Tips'', link = ''https://a.example/2'',
              published = 0, summary = [], keywords = [], score = 0\<rparr>"
  have e1: "has_starter ''5 Ways to Improve Your SEO''"
    by code_simp
  have e2: "\<not> has_starter ''SEO Tips''"
    by code_simp
  have "title_ideas ?a [] = [(''5 Ways to Improve Your SEO'', ''https://a.example/1'')]"
    using title_idea_verbatim_or_rewrite [of ?a "[]"] e1 by simp
  moreover have "title_ideas ?b [] = [(''How to SEO Tips'', ''https://a.example/2''),
          (''The Ultimate Guide to SEO Tips'', ''https://a.example/2'')]"
    using title_idea_verbatim_or_rewrite [of ?b "[]"] e2 by simp
  moreover have "seo_title_ideas ?a [] = [''5 Ways to Improve Your SEO'']"
    using title_idea_verbatim_or_rewrite [of ?a "[]" _ _ "[]"] e1 by simp
  ultimately show ?thesis
    using e1 e2 by (intro conjI)
qed

text \<open>
  The claim as the specification states it fails in \<^verbatim>\<open>seo.py\<close>: the title \<open>SEO Tips\<close> has
  no starter and \<^verbatim>\<open>seo.py\<close> emits no rewrite of it, and the idea it emits for a title
  with a starter is the text alone, with no link.
\<close>

theorem seo_title_without_starter_emits_nothing:
  "\<not> has_starter ''SEO Tips''
   \<and> seo_title_ideas \<lparr>title = ''SEO Tips'', link = ''https://a.example/2'',
                       published = 0, summary = [], keywords = [], score = 0\<rparr> [] = []
   \<and> seo_title_ideas \<lparr>title = ''5 Ways to Improve Your SEO'', link = ''https://a.example/1'',
                       published = 0, summary = [], keywords = [], score = 0\<rparr> []
       = [''5 Ways to Improve Your SEO'']"
  by code_simp

text \<open>
  C7, as the code has it: the ideas of a summary come from the first two sentences only.
  A sentence yields an idea exactly when it has more than 8 and fewer than 20 words; the
  ideas stand in the order of the sentences behind the ideas collected so far; when the
  tokenizer fails there is none. In \<^verbatim>\<open>seonew.py\<close> the idea is the question
  \<open>Why is \<dots> important for your business?\<close> around the sentence, whose first character is
  lower-cased when it is upper-case, with the article's link. In \<^verbatim>\<open>seo.py\<close> the idea is
  the question \<open>Why is \<dots> Important for Your Business?\<close> around the same rewriting of the
  sentence, and it is the text alone: it carries no link.
\<close>

theorem summary_ideas_first_two_sentences:
  "summary_ideas sent_tokenize a ideas =
     (case sent_tokenize (summary a) of
        None \<Rightarrow> ideas
      | Some sentences \<Rightarrow>
          ideas @ map (\<lambda>sent. (why_question (lower_first sent), link a))
                    (filter (\<lambda>sent. 8 < length (py_split sent) \<and> length (py_split sent) < 20)
                       (take 2 sentences)))
   \<and> why_question q = ''Why is '' @ q @ '' important for your business?''
   \<and> lower_first [] = []
   \<and> (py_isupper c \<longrightarrow> lower_first (c # cs) = py_lower_char c # cs)
   \<and> (\<not> py_isupper c \<longrightarrow> lower_first (c # cs) = c # cs)
   \<and> seo_summary_ideas sent_tokenize a texts =
       (case sent_tokenize (summary a) of
          None \<Rightarrow> texts
        | Some sentences \<Rightarrow>
            texts @ map seo_why_question
                      (filter (\<lambda>sent. 8 < length (py_split sent) \<and> length (py_split sent) < 20)
                         (take 2 sentences)))
   \<and> (sent \<noteq> [] \<longrightarrow>
        seo_why_question sent = ''Why is '' @ lower_first sent @ '' Important for Your Business?'')"
proof -
  have "py_lower_char (hd sent) # tl sent = lower_first sent" if "sent \<noteq> []"
    using that by (cases sent) (auto simp: lower_first_def lower_char_not_upper)
  then have "sent \<noteq> [] \<longrightarrow>
        seo_why_question sent = ''Why is '' @ lower_first sent @ '' Important for Your Business?''"
    by (simp add: seo_why_question_def)
  then show ?thesis
    by (simp add: summary_ideas_def seo_summary_ideas_def sentence_ideas_filter
        seo_sentence_ideas_filter lower_first_def why_question_def split: option.split)
qed

theorem summary_ideas_first_two_sentences_witness:
  "length (py_split ''Good content brings more visitors to your site.'') = 8
   \<and> length (py_split ''Good content brings more visitors to your site daily.'') = 9
   \<and> summary_ideas
        (sentences_are [''Good content brings more visitors to your site.'',
                        ''Good content brings more visitors to your site daily.'',
                        ''Fresh content brings more visitors to your site daily.''])
        \<lparr>title = ''SEO Tips'', link = ''https://a.example/2'',
           published = 0, summary = [], keywords = [], score = 0\<rparr> []
      = [(''Why is good content brings more visitors to your site daily. important for your business?'',
          ''https://a.example/2'')]
   \<and> seo_why_question ''Good content brings more visitors to your site daily.''
      = ''Why is good content brings more visitors to your site daily. Important for Your Business?''"
proof -
  let ?st = "sentences_are [''Good content brings more visitors to your site.'',
                        ''Good content brings more visitors to your site daily.'',
                        ''Fresh content brings more visitors to your site daily.'']"
  let ?a = "\<lparr>title = ''SEO Tips'', link = ''https://a.example/2'',
           published = 0, summary = [], keywords = [], score = 0\<rparr>"
  have w8: "length (py_split ''Good content brings more visitors to your site.'') = 8"
    by code_simp
  have w9: "length (py_split ''Good content brings more visitors to your site daily.'') = 9"
    by code_simp
  have lf: "lower_first ''Good content brings more visitors to your site daily.''
              = ''good content brings more visitors to your site daily.''"
    by code_simp
  have "summary_ideas ?st ?a [] =
     (case ?st (summary ?a) of
        None \<Rightarrow> []
      | Some sentences \<Rightarrow>
          [] @ map (\<lambda>sent. (why_question (lower_first sent), link ?a))
                    (filter (\<lambda>sent. 8 < length (py_split sent) \<and> length (py_split sent) < 20)
                       (take 2 sentences)))"
    using summary_ideas_first_two_sentences [of ?st ?a "[]"] by blast
  then have "summary_ideas ?st ?a [] =
      [(''Why is good content brings more visitors to your site daily. important for your business?'',
          ''https://a.example/2'')]"
    by (simp add: sentences_are_def w8 w9 lf why_question_def)
  moreover have "seo_why_question ''Good content brings more visitors to your site daily.''
      = ''Why is good content brings more visitors to your site daily. Important for Your Business?''"
    using summary_ideas_first_two_sentences
      [THEN conjunct2, THEN conjunct2, THEN conjunct2, THEN conjunct2, THEN conjunct2,
       THEN conjunct2, of "''Good content brings more visitors to your site daily.''"]
    by (simp add: lf)
  ultimately show ?thesis
    using w8 w9 by (intro conjI)
qed

text \<open>
  The claim as the specification states it fails in \<^verbatim>\<open>seo.py\<close>: the idea of a sentence is
  the text alone, and two articles that differ in their link only yield the same idea.
\<close>

theorem seo_summary_idea_without_link:
  "seo_summary_ideas
     (sentences_are [''Good content brings more visitors to your site daily.''])
     \<lparr>title = ''SEO Tips'', link = ''https://a.example/2'',
        published = 0, summary = [], keywords = [], score = 0\<rparr> []
     = [''Why is good content brings more visitors to your site daily. Important for Your Business?'']
   \<and> seo_summary_ideas
     (sentences_are [''Good content brings more visitors to your site daily.''])
     \<lparr>title = ''SEO Tips'', link = ''https://a.example/3'',
        published = 0, summary = [], keywords = [], score = 0\<rparr> []
     = [''Why is good content brings more visitors to your site daily. Important for Your Business?'']"
  by code_simp


subsection \<open>Deduplication and ranking of the ideas\<close>

lemma sort_by_count_perm: "mset (sort_by_count u) = mset u"
  by (simp add: sort_by_count_def mset_py_sorted_reverse)

lemma rank_ideas_take:
  "rank_ideas ideas =
     take NUM_SUGGESTIONS (map (\<lambda>x. (fst x, fst (snd x))) (sort_by_count (unique_ordered ideas)))"
  by (simp add: rank_ideas_def take_map)





lemma test_rank_ideas_first_seen:
  "test_rank_ideas ideas =
     take NUM_SUGGESTIONS (map (\<lambda>x. (fst x, fst (snd x))) (unique_ordered ideas))"
  by (simp add: test_rank_ideas_def unique_ordered_def
      unique_ideas_loop_unique_loop [of ideas "{}" "Counter (map fst ideas)"])

text \<open>
  C3, as the code has it: in \<^verbatim>\<open>seonew.py\<close> the deduplicated ideas, sorted by count, are
  in descending order of the frequency of their text among the generated ideas, and
  ideas of equal frequency are in the order in which their texts first occur; the
  suggestions returned are the first \<^verbatim>\<open>NUM_SUGGESTIONS\<close> of this ranking, so at most that
  many. In \<^verbatim>\<open>test.py\<close> the deduplicated ideas stay in the order in which their texts first
  occur, whatever their frequency, and the suggestions returned are the first
  \<^verbatim>\<open>NUM_SUGGESTIONS\<close> of them. In both, no ideas give the empty list.
\<close>

theorem ranked_by_frequency_then_first_seen:
  "sorted_wrt
     (\<lambda>x y. count_list (map fst ideas) (fst y) < count_list (map fst ideas) (fst x)
            \<or> (count_list (map fst ideas) (fst x) = count_list (map fst ideas) (fst y)
               \<and> first_index (fst x) (map fst ideas) < first_index (fst y) (map fst ideas)))
     (map (\<lambda>x. (fst x, fst (snd x))) (sort_by_count (unique_ordered ideas)))
   \<and> rank_ideas ideas =
       take NUM_SUGGESTIONS
         (map (\<lambda>x. (fst x, fst (snd x))) (sort_by_count (unique_ordered ideas)))
   \<and> length (rank_ideas ideas) \<le> NUM_SUGGESTIONS
   \<and> rank_ideas [] = []
   \<and> suggest_seo_topics sent_tokenize [] = []
   \<and> test_rank_ideas ideas =
       take NUM_SUGGESTIONS (map (\<lambda>x. (fst x, fst (snd x))) (unique_ordered ideas))
   \<and> map fst (unique_ordered ideas) = first_seen (map fst ideas)
   \<and> length (test_rank_ideas ideas) \<le> NUM_SUGGESTIONS
   \<and> test_rank_ideas [] = []"
proof -
  let ?T = "map fst ideas"
  let ?U = "unique_ordered ideas"
  let ?S = "sort_by_count ?U"
  let ?Q = "\<lambda>x y. first_index (fst x) ?T < first_index (fst y) ?T"
  have "sorted_wrt (\<lambda>s t. first_index s ?T < first_index t ?T) (map fst ?U)"
    by (simp only: unique_ordered_texts first_seen_sorted)
  then have "sorted_wrt ?Q ?U"
    by (simp add: sorted_wrt_map)
  then have srt: "sorted_wrt (\<lambda>x y. snd (snd y) < snd (snd x)
                            \<or> (snd (snd x) = snd (snd y) \<and> ?Q x y)) ?S"
    unfolding sort_by_count_def by (rule py_sorted_reverse_ties)
  have cnt: "snd (snd x) = count_list ?T (fst x)" if "x \<in> set ?S" for x
  proof -
    from that have "x \<in> set ?U"
      using mset_eq_setD [OF sort_by_count_perm [of ?U]] by simp
    then show ?thesis
      using unique_ordered_entry [of "fst x" "fst (snd x)" "snd (snd x)" ideas] by simp
  qed
  from srt have
    "sorted_wrt (\<lambda>x y. count_list ?T (fst y) < count_list ?T (fst x)
                     \<or> (count_list ?T (fst x) = count_list ?T (fst y) \<and> ?Q x y)) ?S"
    by (rule sorted_wrt_mono_rel [rotated]) (simp add: cnt)
  then have "sorted_wrt
     (\<lambda>x y. count_list ?T (fst y) < count_list ?T (fst x)
            \<or> (count_list ?T (fst x) = count_list ?T (fst y)
               \<and> first_index (fst x) ?T < first_index (fst y) ?T))
     (map (\<lambda>x. (fst x, fst (snd x))) ?S)"
    by (simp add: sorted_wrt_map)
  moreover have "rank_ideas [] = []"
    by (simp add: rank_ideas_def sort_by_count_def unique_ordered_def py_sorted_reverse_def)
  moreover from this have "suggest_seo_topics sent_tokenize [] = []"
    by (simp add: suggest_seo_topics_def)
  moreover have "length (test_rank_ideas ideas) \<le> NUM_SUGGESTIONS"
    and "test_rank_ideas [] = []"
    by (simp_all add: test_rank_ideas_def)
  ultimately show ?thesis
    using rank_ideas_take [of ideas] test_rank_ideas_first_seen [of ideas]
      unique_ordered_texts [of ideas]
    by (intro conjI) simp_all
qed

theorem ranked_by_frequency_then_first_seen_witness:
  "rank_ideas [(''a'', ''1''), (''b'', ''2''), (''b'', ''3''), (''c'', ''4''), (''c'', ''5'')]
     = [(''b'', ''2''), (''c'', ''4''), (''a'', ''1'')]
   \<and> length (rank_ideas
        [(''a'', ''1''), (''b'', ''2''), (''b'', ''3''), (''c'', ''4''), (''c'', ''5'')])
       \<le> NUM_SUGGESTIONS
   \<and> suggest_seo_topics (sentences_are []) [] = []
   \<and> test_rank_ideas [(''a'', ''1''), (''b'', ''2''), (''b'', ''3''), (''c'', ''4''), (''c'', ''5'')]
     = [(''a'', ''1''), (''b'', ''2''), (''c'', ''4'')]"
proof -
  let ?ideas = "[(''a'', ''1''), (''b'', ''2''), (''b'', ''3''), (''c'', ''4''), (''c'', ''5'')]"
  note inst = ranked_by_frequency_then_first_seen [of ?ideas "sentences_are []"]
  have r: "rank_ideas ?ideas = [(''b'', ''2''), (''c'', ''4''), (''a'', ''1'')]"
    by code_simp
  have l: "length (rank_ideas ?ideas) \<le> NUM_SUGGESTIONS"
    using inst [THEN conjunct2, THEN conjunct2] by (rule conjunct1)
  have e: "suggest_seo_topics (sentences_are []) [] = []"
    using inst [THEN conjunct2, THEN conjunct2, THEN conjunct2, THEN conjunct2]
    by (rule conjunct1)
  have "take NUM_SUGGESTIONS (map (\<lambda>x. (fst x, fst (snd x))) (unique_ordered ?ideas))
          = [(''a'', ''1''), (''b'', ''2''), (''c'', ''4'')]"
    by code_simp
  then have t: "test_rank_ideas ?ideas = [(''a'', ''1''), (''b'', ''2''), (''c'', ''4'')]"
    using inst [THEN conjunct2, THEN conjunct2, THEN conjunct2, THEN conjunct2, THEN conjunct2]
    by simp
  from r l e t show ?thesis by (intro conjI)
qed

text \<open>
  The claim as the specification states it fails in \<^verbatim>\<open>test.py\<close>: the text \<open>b\<close> occurs
  twice and the text \<open>a\<close> once, and \<open>a\<close> is returned before \<open>b\<close>.
\<close>

theorem test_rank_ideas_not_by_frequency:
  "test_rank_ideas [(''a'', ''1''), (''b'', ''2''), (''b'', ''3'')]
     = [(''a'', ''1''), (''b'', ''2'')]
   \<and> count_list (map fst [(''a'', ''1''), (''b'', ''2''), (''b'', ''3'')]) ''a'' = 1
   \<and> count_list (map fst [(''a'', ''1''), (''b'', ''2''), (''b'', ''3'')]) ''b'' = 2"
  by code_simp

text \<open>
  The ranking of \<^verbatim>\<open>seo.py\<close> returns at most \<^verbatim>\<open>NUM_SUGGESTIONS\<close> of the generated texts,
  none of them twice.
\<close>

lemma seo_rank_ideas_distinct:
  "distinct (seo_rank_ideas texts) \<and> set (seo_rank_ideas texts) \<subseteq> set texts
   \<and> length (seo_rank_ideas texts) \<le> NUM_SUGGESTIONS"
proof -
  let ?S = "py_sorted_reverse snd (Counter texts)"
  have "mset (map fst ?S) = mset (map fst (Counter texts))"
    by (simp add: mset_py_sorted_reverse)
  then have "distinct (map fst ?S)"
    using Counter_distinct [of texts] by (metis mset_eq_imp_distinct_iff)
  then have "distinct (take NUM_SUGGESTIONS (map fst ?S))"
    by (rule distinct_take)
  moreover have "set (take NUM_SUGGESTIONS (map fst ?S)) \<subseteq> set texts"
    using set_take_subset [of NUM_SUGGESTIONS "map fst ?S"] Counter_keys [of texts]
    by (simp add: set_py_sorted_reverse)
  ultimately show ?thesis
    by (simp add: seo_rank_ideas_def most_common_def take_map)
qed


end
